theory Spec2Isabelle
  imports Main
begin

section \<open>Data model of the sequential chains\<close>

text \<open>
  A variable environment is a Python \<^verbatim>\<open>Dict[str, str]\<close>: a finite map from
  variable names to string values.
\<close>

type_synonym env = "string \<rightharpoonup> string"

text \<open>
  The three messages of the \<^verbatim>\<open>ValueError\<close>s that the validators of
  \<^verbatim>\<open>sequential.py\<close> raise, each with the value it interpolates.
\<close>

datatype value_error =
    MissingRequiredInputKeys "string set"
  | ChainReturnedExistingKeys "string set"
  | ExpectedOutputVariablesNotFound "string set"
  | ShouldAllHaveOneInput nat
  | ShouldAllHaveOneOutput nat

text \<open>
  The exceptions of the model. A \<^verbatim>\<open>ValueError\<close> raised inside a pydantic
  root validator reaches the caller of the constructor as pydantic's
  \<^verbatim>\<open>ValidationError\<close>; the other exceptions propagate unchanged.
  \<open>ChainError\<close> stands for whatever a sub-chain or the renderer raises.
\<close>

datatype error =
    ValueError value_error
  | IndexError
  | KeyError string
  | AttributeError string
  | ChainError string

fun is_ValidationError :: "error \<Rightarrow> bool" where
  "is_ValidationError (ValueError _) = True"
| "is_ValidationError _ = False"

text \<open>
  A sub-chain, seen through the interface of \<^verbatim>\<open>langchain.chains.base.Chain\<close>
  that \<^verbatim>\<open>sequential.py\<close> uses. The base class is outside the sources, so what a
  sub-chain computes is a field of the record: \<open>invoke c kv\<close> is
  \<^verbatim>\<open>chain(known_values, return_only_outputs=True)\<close> and \<open>run c s\<close> is
  \<^verbatim>\<open>chain.run(s)\<close>; both may raise.
\<close>

record chain =
  input_keys :: "string list"
  output_keys :: "string list"
  invoke :: "env \<Rightarrow> error + env"
  run :: "string \<Rightarrow> error + string"

text \<open>
  \<^verbatim>\<open>values["output_variables"]\<close> holds a list when the caller passes one or when it
  defaults to the last sub-chain's \<^verbatim>\<open>output_keys\<close>, and a Python set when it
  defaults under \<^verbatim>\<open>return_all\<close>.
\<close>

datatype keys = KeyList "string list" | KeySet "string set"

fun keys_set :: "keys \<Rightarrow> string set" where
  "keys_set (KeyList ks) = set ks"
| "keys_set (KeySet S) = S"

text \<open>
  The raw \<^verbatim>\<open>values\<close> dictionary handed to the \<^verbatim>\<open>pre=True\<close> root validator
  of \<^verbatim>\<open>SequentialChain\<close>. The entries \<^verbatim>\<open>"chains"\<close> and
  \<^verbatim>\<open>"input_variables"\<close> are read unconditionally; \<^verbatim>\<open>"output_variables"\<close>
  and \<^verbatim>\<open>"return_all"\<close> may be absent (\<open>None\<close>).
\<close>

record values_dict =
  chains :: "chain list"
  input_variables :: "string list"
  output_variables :: "keys option"
  return_all :: "bool option"

section \<open>\<^verbatim>\<open>SequentialChain.validate_chains\<close>\<close>

text \<open>
  The \<^verbatim>\<open>for chain in chains\<close> loop of the validator, from the current
  \<^verbatim>\<open>known_variables\<close>: the input keys are checked first, then the output keys,
  then the output keys are added.
\<close>

fun validate_loop :: "string set \<Rightarrow> chain list \<Rightarrow> error + string set" where
  "validate_loop known_variables [] = Inr known_variables"
| "validate_loop known_variables (c # cs) =
     (let missing_vars = set (input_keys c) - known_variables in
      if missing_vars \<noteq> {} then Inl (ValueError (MissingRequiredInputKeys missing_vars))
      else
        let overlapping_keys = known_variables \<inter> set (output_keys c) in
        if overlapping_keys \<noteq> {} then Inl (ValueError (ChainReturnedExistingKeys overlapping_keys))
        else validate_loop (known_variables \<union> set (output_keys c)) cs)"

text \<open>\<^verbatim>\<open>values.get("return_all", False)\<close>, taken as a condition.\<close>

fun get_return_all :: "bool option \<Rightarrow> bool" where
  "get_return_all None = False"
| "get_return_all (Some b) = b"

text \<open>
  The part of the validator after the loop. \<^verbatim>\<open>chains[-1]\<close> raises
  \<^verbatim>\<open>IndexError\<close> on an empty list.
\<close>

definition resolve_output_variables :: "values_dict \<Rightarrow> string set \<Rightarrow> error + values_dict" where
  "resolve_output_variables v known_variables =
     (case output_variables v of
        None \<Rightarrow>
          if get_return_all (return_all v)
          then Inr (v\<lparr>output_variables := Some (KeySet (known_variables - set (input_variables v)))\<rparr>)
          else (case chains v of
                  [] \<Rightarrow> Inl IndexError
                | _ # _ \<Rightarrow> Inr (v\<lparr>output_variables := Some (KeyList (output_keys (last (chains v))))\<rparr>))
      | Some ks \<Rightarrow>
          (let missing_vars = keys_set ks - known_variables in
           if missing_vars \<noteq> {} then Inl (ValueError (ExpectedOutputVariablesNotFound missing_vars))
           else Inr v))"

definition validate_chains :: "values_dict \<Rightarrow> error + values_dict" where
  "validate_chains v =
     (case validate_loop (set (input_variables v)) (chains v) of
        Inl e \<Rightarrow> Inl e
      | Inr known_variables \<Rightarrow> resolve_output_variables v known_variables)"

text \<open>
  The known-variable set in the words of the specification: before sub-chain \<open>i\<close> it is
  the initial set (the declared inputs) united with the output keys of the sub-chains
  before \<open>i\<close>; at the end it is the initial set united with all output keys.
\<close>

definition known_before :: "string set \<Rightarrow> chain list \<Rightarrow> nat \<Rightarrow> string set" where
  "known_before K cs i = K \<union> (\<Union>c \<in> set (take i cs). set (output_keys c))"

definition known_final :: "string set \<Rightarrow> chain list \<Rightarrow> string set" where
  "known_final K cs = K \<union> (\<Union>c \<in> set cs. set (output_keys c))"

text \<open>Sub-chain \<open>i\<close> has no missing input key, and no output key that is already known.\<close>

definition inputs_known :: "string set \<Rightarrow> chain list \<Rightarrow> nat \<Rightarrow> bool" where
  "inputs_known K cs i \<longleftrightarrow> set (input_keys (cs ! i)) \<subseteq> known_before K cs i"

definition outputs_fresh :: "string set \<Rightarrow> chain list \<Rightarrow> nat \<Rightarrow> bool" where
  "outputs_fresh K cs i \<longleftrightarrow> known_before K cs i \<inter> set (output_keys (cs ! i)) = {}"

section \<open>\<^verbatim>\<open>SimpleSequentialChain.validate_chains\<close>\<close>

fun simple_validate_chains :: "chain list \<Rightarrow> error + chain list" where
  "simple_validate_chains [] = Inr []"
| "simple_validate_chains (c # cs) =
     (if length (input_keys c) \<noteq> 1 then Inl (ValueError (ShouldAllHaveOneInput (length (input_keys c))))
      else if length (output_keys c) \<noteq> 1 then Inl (ValueError (ShouldAllHaveOneOutput (length (output_keys c))))
      else (case simple_validate_chains cs of Inl e \<Rightarrow> Inl e | Inr cs' \<Rightarrow> Inr (c # cs')))"

section \<open>\<^verbatim>\<open>SequentialChain._call\<close>\<close>

text \<open>
  The \<^verbatim>\<open>for i, chain in enumerate(self.chains)\<close> loop. The model returns, besides the
  final \<^verbatim>\<open>known_values\<close> or the exception that ended the loop, the invocations made
  (index and the environment handed to the sub-chain, in the order they happen) and what
  the loop printed (index and \<^verbatim>\<open>outputs\<close>, only when \<^verbatim>\<open>self.verbose\<close>).
  \<^verbatim>\<open>known_values.update(outputs)\<close> is \<open>known_values ++ outputs\<close>.
\<close>

fun call_loop ::
  "bool \<Rightarrow> nat \<Rightarrow> chain list \<Rightarrow> env \<Rightarrow> (nat \<times> env) list \<times> (nat \<times> env) list \<times> (error + env)" where
  "call_loop verbose i [] known_values = ([], [], Inr known_values)"
| "call_loop verbose i (c # cs) known_values =
     (case invoke c known_values of
        Inl e \<Rightarrow> ([(i, known_values)], [], Inl e)
      | Inr outputs \<Rightarrow>
          (case call_loop verbose (Suc i) cs (known_values ++ outputs) of
             (calls, printed, r) \<Rightarrow>
               ((i, known_values) # calls,
                (if verbose then [(i, outputs)] else []) @ printed,
                r)))"

text \<open>
  The dictionary comprehension \<^verbatim>\<open>{k: known_values[k] for k in ks}\<close>: the first key
  of \<open>ks\<close> that is missing raises \<^verbatim>\<open>KeyError\<close>.
\<close>

fun select_keys :: "env \<Rightarrow> string list \<Rightarrow> error + env" where
  "select_keys known_values [] = Inr Map.empty"
| "select_keys known_values (k # ks) =
     (case known_values k of
        None \<Rightarrow> Inl (KeyError k)
      | Some x \<Rightarrow>
          (case select_keys known_values ks of
             Inl e \<Rightarrow> Inl e
           | Inr m \<Rightarrow> Inr (m(k \<mapsto> x))))"

text \<open>
  \<^verbatim>\<open>_call\<close> of an object whose fields are \<^verbatim>\<open>verbose\<close>, \<^verbatim>\<open>chains\<close> and
  \<^verbatim>\<open>output_variables\<close> (a list, as the field is declared \<^verbatim>\<open>List[str]\<close>).
\<close>

definition seq_call ::
  "bool \<Rightarrow> chain list \<Rightarrow> string list \<Rightarrow> env \<Rightarrow> (nat \<times> env) list \<times> (nat \<times> env) list \<times> (error + env)" where
  "seq_call verbose cs out_vars inputs =
     (case call_loop verbose 0 cs inputs of
        (calls, printed, r) \<Rightarrow>
          (calls, printed,
           case r of Inl e \<Rightarrow> Inl e | Inr known_values \<Rightarrow> select_keys known_values out_vars))"

text \<open>
  The accumulated environments in the words of the specification: the first sub-chain
  receives the inputs, each later one the environment of its predecessor merged with the
  outputs the predecessor returned; the last element is the environment after the last
  sub-chain.
\<close>

fun accumulated_envs :: "chain list \<Rightarrow> env \<Rightarrow> env list" where
  "accumulated_envs [] kv = [kv]"
| "accumulated_envs (c # cs) kv =
     kv # accumulated_envs cs (kv ++ (case invoke c kv of Inl _ \<Rightarrow> Map.empty | Inr outputs \<Rightarrow> outputs))"

text \<open>
  A sub-chain that honours the contract of \<^verbatim>\<open>Chain.__call__\<close> with
  \<^verbatim>\<open>return_only_outputs=True\<close>: given its input keys, it returns a value for each
  of its output keys and nothing else.
\<close>

definition honours_keys :: "chain \<Rightarrow> bool" where
  "honours_keys c \<longleftrightarrow>
     (\<forall>kv. set (input_keys c) \<subseteq> dom kv \<longrightarrow>
           (\<exists>outputs. invoke c kv = Inr outputs \<and> dom outputs = set (output_keys c)))"

section \<open>\<^verbatim>\<open>SimpleSequentialChain._call\<close>\<close>

text \<open>
  \<^verbatim>\<open>str.strip()\<close> removes leading and trailing whitespace. Strings are modelled as
  ASCII text; these are the ASCII characters for which \<^verbatim>\<open>str.isspace\<close> holds.
\<close>

definition is_space :: "char \<Rightarrow> bool" where
  "is_space c \<longleftrightarrow>
     c \<in> {CHR 0x09, CHR 0x0A, CHR 0x0B, CHR 0x0C, CHR 0x0D,
          CHR 0x1C, CHR 0x1D, CHR 0x1E, CHR 0x1F, CHR 0x20}"

definition strip :: "string \<Rightarrow> string" where
  "strip s = rev (dropWhile is_space (rev (dropWhile is_space s)))"

record simple_sequential_chain =
  sub_chains :: "chain list"
  strip_outputs :: bool
  input_key :: string
  output_key :: string
  verbose :: bool

text \<open>
  The loop of \<^verbatim>\<open>_call\<close>, with the \<^verbatim>\<open>on_text\<close> notifications it sends when
  verbose: the text and the index \<open>i\<close> whose string is the key into the colour mapping.
\<close>

fun simple_loop :: "bool \<Rightarrow> bool \<Rightarrow> nat \<Rightarrow> chain list \<Rightarrow> string \<Rightarrow> (string \<times> nat) list \<times> (error + string)" where
  "simple_loop strp vb i [] inp = ([], Inr inp)"
| "simple_loop strp vb i (c # cs) inp =
     (case run c inp of
        Inl e \<Rightarrow> ([], Inl e)
      | Inr out \<Rightarrow>
          (let inp' = (if strp then strip out else out) in
           case simple_loop strp vb (Suc i) cs inp' of
             (texts, r) \<Rightarrow> ((if vb then [(inp', i)] else []) @ texts, r)))"


text \<open>
  The composition the specification names: each stage applied in order, with the
  trimming after each stage when the flag is set.
\<close>

fun compose_stages :: "bool \<Rightarrow> (string \<Rightarrow> string) list \<Rightarrow> string \<Rightarrow> string" where
  "compose_stages strp [] x = x"
| "compose_stages strp (f # fs) x = compose_stages strp fs (if strp then strip (f x) else f x)"

text \<open>A sub-chain whose \<^verbatim>\<open>run\<close> is the total string function \<open>f\<close>.\<close>

definition string_chain :: "string \<Rightarrow> string \<Rightarrow> (string \<Rightarrow> string) \<Rightarrow> chain" where
  "string_chain ik ok f =
     \<lparr>input_keys = [ik], output_keys = [ok],
      invoke = (\<lambda>kv. case kv ik of None \<Rightarrow> Inl (ValueError (MissingRequiredInputKeys {ik}))
                                 | Some s \<Rightarrow> Inr [ok \<mapsto> f s]),
      run = (\<lambda>s. Inr (f s))\<rparr>"

section \<open>\<^verbatim>\<open>SequentailChainWithPreviousContext._call\<close>\<close>




text \<open>
  What one completed iteration of the loop computed: the template it assigned to the
  sub-chain's prompt, the \<^verbatim>\<open>prompt\<close> it rendered, the \<^verbatim>\<open>response\<close> it read, and
  what it printed (the outputs, when verbose).
\<close>

record step =
  effective_template :: string
  rendered_prompt :: string
  response :: string
  printed :: "env option"




section \<open>The agent executor\<close>

text \<open>
  The sources hold the tests of the agent (\<^verbatim>\<open>tests/unit_tests/agents/test_agent.py\<close>)
  and the package's list of names, but not \<^verbatim>\<open>langchain.agents.agent\<close> nor the
  callback manager. The test's \<^verbatim>\<open>FakeListLLM\<close> is translated from the source; the
  parser, the tool registry, the event bus, the policy and the executor are modelled from
  the specification, sections 3 and 4.
\<close>

subsection \<open>\<^verbatim>\<open>FakeListLLM\<close> (from the test file)\<close>

record fake_list_llm =
  responses :: "string list"
  fake_i :: int

text \<open>
  \<^verbatim>\<open>self.responses[self.i]\<close>: a negative index counts from the end, an index out of
  range raises \<^verbatim>\<open>IndexError\<close>.
\<close>

definition list_index :: "'a list \<Rightarrow> int \<Rightarrow> error + 'a" where
  "list_index xs k =
     (let n = int (length xs); j = (if k < 0 then n + k else k)
      in if 0 \<le> j \<and> j < n then Inr (xs ! nat j) else Inl IndexError)"

text \<open>
  \<^verbatim>\<open>FakeListLLM._call\<close>: increment the counter (field \<^verbatim>\<open>i\<close>, initially \<open>-1\<close>), then
  return the response at that index. The prompt and the stop sequences are ignored.
\<close>

definition fake_call :: "fake_list_llm \<Rightarrow> string \<Rightarrow> string list \<Rightarrow> (error + string) \<times> fake_list_llm" where
  "fake_call self prompt_text stop =
     (let self' = self\<lparr>fake_i := fake_i self + 1\<rparr>
      in (list_index (responses self') (fake_i self'), self'))"

definition FakeListLLM :: "string list \<Rightarrow> fake_list_llm" where
  "FakeListLLM rs = \<lparr>responses = rs, fake_i = - 1\<rparr>"

subsection \<open>Text-Action Parser\<close>

text \<open>
  Modelled from the spec: the data model of section 3. An \<open>Action\<close> carries the tool name
  and the tool input; \<open>AgentFinish\<close> carries the output. The reserved finish marker is
  the name \<^verbatim>\<open>Final Answer\<close>.
\<close>

datatype decision = Action string string | AgentFinish string

text \<open>
  Modelled from the spec: the \<^verbatim>\<open>ParseError\<close> of sections 4.1 and 7.
\<close>

datatype parse_error = ParseError

text \<open>
  Modelled from the spec: the sentinel reserved name of section 3, \<^verbatim>\<open>Final Answer\<close>.
\<close>

definition finish_marker :: string where
  "finish_marker = ''Final Answer''"

text \<open>
  Modelled from the spec: the lines that the parser of section 4.1 matches are the pieces
  of the text between newline characters.
\<close>

fun split_lines :: "string \<Rightarrow> string list" where
  "split_lines [] = [[]]"
| "split_lines (c # cs) =
     (if c = CHR 0x0A then [] # split_lines cs
      else (case split_lines cs of
              [] \<Rightarrow> [[c]]
            | l # ls \<Rightarrow> (c # l) # ls))"

text \<open>
  Modelled from the spec: a line matches \<^verbatim>\<open>Action: <name>\<close> when it starts with
  \<^verbatim>\<open>Action: \<close>, and the name is the rest of the line (section 4.1).
  \<open>drop_prefix p s\<close> is the rest of \<open>s\<close> after the prefix \<open>p\<close>, if \<open>s\<close> starts with \<open>p\<close>.
\<close>

fun drop_prefix :: "string \<Rightarrow> string \<Rightarrow> string option" where
  "drop_prefix [] s = Some s"
| "drop_prefix (p # ps) [] = None"
| "drop_prefix (p # ps) (c # cs) = (if p = c then drop_prefix ps cs else None)"

text \<open>
  Modelled from the spec: the Text-Action Parser of section 4.1, which is not in the
  sources. It recognises a line \<^verbatim>\<open>Action: <name>\<close> followed by a line
  \<^verbatim>\<open>Action Input: <input>\<close>, the input being the remainder of that line; the first
  such pair of lines counts.
\<close>

fun find_action :: "string list \<Rightarrow> (string \<times> string) option" where
  "find_action (l1 # l2 # ls) =
     (case drop_prefix ''Action: '' l1 of
        None \<Rightarrow> find_action (l2 # ls)
      | Some nm \<Rightarrow>
          (case drop_prefix ''Action Input: '' l2 of
             None \<Rightarrow> find_action (l2 # ls)
           | Some inp \<Rightarrow> Some (nm, inp)))"
| "find_action _ = None"

text \<open>
  Modelled from the spec: section 4.1. The finish marker as name gives \<open>AgentFinish\<close> with
  the input as output, any other name a tool \<open>Action\<close>; a text without the pattern is a
  \<open>ParseError\<close>.
\<close>

definition parse :: "string \<Rightarrow> parse_error + decision" where
  "parse txt =
     (case find_action (split_lines txt) of
        None \<Rightarrow> Inl ParseError
      | Some (nm, inp) \<Rightarrow> Inr (if nm = finish_marker then AgentFinish inp else Action nm inp))"

subsection \<open>Tool Registry\<close>

text \<open>
  Modelled from the spec: a Tool of section 3 (name, description, a string function) and
  the registry of section 4.2, an ordered sequence of tools resolved by exact name;
  \<^verbatim>\<open>langchain.agents.tools\<close> is not in the sources.
\<close>

record tool =
  tool_name :: string
  tool_description :: string
  tool_func :: "string \<Rightarrow> string"

text \<open>
  Modelled from the spec: the \<^verbatim>\<open>ToolNotFoundError\<close> of sections 4.2 and 7, with the
  name that was not found.
\<close>

datatype registry_error = ToolNotFoundError string

text \<open>
  Modelled from the spec: \<^verbatim>\<open>invoke(name, input)\<close> of section 4.2, the first tool of
  the registry with exactly that name.
\<close>

definition registry_invoke :: "tool list \<Rightarrow> string \<Rightarrow> string \<Rightarrow> registry_error + string" where
  "registry_invoke registry nm inp =
     (case find (\<lambda>t. tool_name t = nm) registry of
        None \<Rightarrow> Inl (ToolNotFoundError nm)
      | Some t \<Rightarrow> Inr (tool_func t inp))"

subsection \<open>Event Bus\<close>

text \<open>
  Modelled from the spec: the CallbackEvent of section 3, a tagged variant carrying the
  emitting component; the callback manager is not in the sources. The payload is the text
  the event is about.
\<close>

datatype event_kind = ChainStart | ChainEnd | LLMStart | LLMEnd | ToolStart | ToolEnd | Text | Error

datatype component = Executor | Policy | Model

record callback_event =
  kind :: event_kind
  emitter :: component
  payload :: string

text \<open>
  Modelled from the spec: section 4.3. A component emits only when verbosity is enabled:
  its own flag, when set, overrides the process-wide default.
\<close>

fun resolve_verbose :: "bool \<Rightarrow> bool option \<Rightarrow> bool" where
  "resolve_verbose global_default None = global_default"
| "resolve_verbose global_default (Some own) = own"

text \<open>
  Modelled from the spec: the delivery of one event, gated by the resolved verbosity of
  the emitting component (section 4.3).
\<close>

definition emit :: "bool \<Rightarrow> event_kind \<Rightarrow> component \<Rightarrow> string \<Rightarrow> callback_event list" where
  "emit enabled k c txt = (if enabled then [\<lparr>kind = k, emitter = c, payload = txt\<rparr>] else [])"

text \<open>
  Modelled from the spec: the counts of section 4.3 and section 8, the number of events
  of a kind on the bus.
\<close>

definition count_kind :: "event_kind \<Rightarrow> callback_event list \<Rightarrow> nat" where
  "count_kind k evs = length (filter (\<lambda>e. kind e = k) evs)"

text \<open>
  Modelled from the spec: the number of events of a kind from one component; the
  executor's own ChainStart and ChainEnd are the top-level pair of section 8.
\<close>

definition count_from :: "event_kind \<Rightarrow> component \<Rightarrow> callback_event list \<Rightarrow> nat" where
  "count_from k c evs = length (filter (\<lambda>e. kind e = k \<and> emitter e = c) evs)"

subsection \<open>Agent Policy and Agent Executor\<close>

text \<open>
  Modelled from the spec: the configuration of an executor (sections 4.3 to 4.5 and 6);
  \<^verbatim>\<open>AgentExecutor\<close> and \<^verbatim>\<open>initialize_agent\<close> are not in the sources. The model
  collaborator is a function of its own state, the prompt and the stop sequences, which
  may fail. What the specification leaves to excluded code or gives no text for is a
  field: the rendering of the prompt, the observation for an unknown tool, the corrective
  observation after a parse error, the message of the time limit, and the time each cycle
  takes (cycle \<open>k\<close> adds \<open>cycle_time k\<close> to the elapsed time).
\<close>

record 's agent_executor =
  tools :: "tool list"
  llm_complete :: "'s \<Rightarrow> string \<Rightarrow> string list \<Rightarrow> (error + string) \<times> 's"
  render_prompt :: "string \<Rightarrow> tool list \<Rightarrow> (string \<times> string) list \<Rightarrow> string"
  stop_sequences :: "string list"
  max_iterations :: "nat option"
  max_execution_time :: "nat option"
  cycle_time :: "nat \<Rightarrow> nat"
  unavailable_observation :: "string \<Rightarrow> string"
  format_observation :: string
  time_limit_message :: string
  global_verbose :: bool
  executor_verbose :: "bool option"
  policy_verbose :: "bool option"
  model_verbose :: "bool option"

text \<open>
  Modelled from the spec: the states of the executor's state machine (sections 3 and 4.5).
\<close>

datatype run_status = Running | Finished | StoppedEarly

text \<open>
  Modelled from the spec: the AgentExecutionState of section 3, with the state of the
  model collaborator, the events delivered so far, and two counters for the properties proved below:
  the policy decisions taken and the tool dispatches made.
\<close>

record 's execution_state =
  scratchpad :: "(string \<times> string) list"
  iterations :: nat
  elapsed_time :: nat
  status :: run_status
  llm_state :: 's
  bus :: "callback_event list"
  decisions :: nat
  dispatches :: nat

text \<open>
  Modelled from the spec: the fixed message of section 4.5, step 6, which the test
  \<^verbatim>\<open>test_agent_stopped_early\<close> also expects.
\<close>

definition max_iterations_message :: string where
  "max_iterations_message = ''Agent stopped due to max iterations.''"

text \<open>
  Modelled from the spec: step 6 of section 4.5, the check before an iteration starts.
  The iteration limit is reached when the counter is at least the limit; the time limit
  is exceeded when the elapsed time is greater than it.
\<close>

definition stop_message :: "'s agent_executor \<Rightarrow> 's execution_state \<Rightarrow> string option" where
  "stop_message ex st =
     (case max_iterations ex of
        Some n \<Rightarrow>
          if n \<le> iterations st then Some max_iterations_message
          else (case max_execution_time ex of
                  Some t \<Rightarrow> if t < elapsed_time st then Some (time_limit_message ex) else None
                | None \<Rightarrow> None)
      | None \<Rightarrow>
          (case max_execution_time ex of
             Some t \<Rightarrow> if t < elapsed_time st then Some (time_limit_message ex) else None
           | None \<Rightarrow> None))"

text \<open>
  Modelled from the spec: the end of a run, which closes the executor's
  ChainStart/ChainEnd pair (section 4.3).
\<close>

definition end_run :: "'s agent_executor \<Rightarrow> run_status \<Rightarrow> string \<Rightarrow> 's execution_state \<Rightarrow> 's execution_state" where
  "end_run ex s out st =
     st\<lparr>status := s,
        bus := bus st @ emit (resolve_verbose (global_verbose ex) (executor_verbose ex)) ChainEnd Executor out\<rparr>"

text \<open>
  Modelled from the spec: the end of a cycle that continues the loop (steps 3, 4 and 5
  of section 4.5): the pair is appended to the scratchpad, with one Text event when the
  executor is verbose, and the iteration counter and the elapsed time advance (step 6).
\<close>

definition append_observation ::
  "'s agent_executor \<Rightarrow> string \<Rightarrow> string \<Rightarrow> 's execution_state \<Rightarrow> 's execution_state" where
  "append_observation ex action_text observation_text st =
     st\<lparr>scratchpad := scratchpad st @ [(action_text, observation_text)],
        bus := bus st @ emit (resolve_verbose (global_verbose ex) (executor_verbose ex)) Text Executor
                           observation_text,
        iterations := Suc (iterations st),
        elapsed_time := elapsed_time st + cycle_time ex (iterations st)\<rparr>"

text \<open>
  Modelled from the spec: the dispatch of a tool Action (steps 3 and 4 of section 4.5,
  section 4.2), one ToolStart/ToolEnd pair per dispatch (section 4.3). An unknown name is
  treated as if the tool had returned the observation that it is unavailable.
\<close>

definition dispatch :: "'s agent_executor \<Rightarrow> string \<Rightarrow> string \<Rightarrow> 's execution_state \<Rightarrow> string \<times> 's execution_state" where
  "dispatch ex nm inp st =
     (let ev = resolve_verbose (global_verbose ex) (executor_verbose ex);
          observation = (case registry_invoke (tools ex) nm inp of
                           Inl (ToolNotFoundError _) \<Rightarrow> unavailable_observation ex nm
                         | Inr out \<Rightarrow> out)
      in (observation,
          st\<lparr>bus := bus st @ emit ev ToolStart Executor nm @ emit ev ToolEnd Executor observation,
             dispatches := Suc (dispatches st)\<rparr>))"

text \<open>
  Modelled from the spec: the Agent Policy of section 4.4. It renders the prompt from the
  input, the tools and the scratchpad, invokes the model once, and hands the text to the
  parser. It is a sub-chain invocation of the run, with its own ChainStart/ChainEnd pair
  around the model's LLMStart/LLMEnd pair (section 4.3; the test file counts "1 top
  level chain run, 2 LLMChain runs, 2 LLM runs, 1 tool run"). A failure of the model
  propagates; the specification names no event for it, and none is emitted.
\<close>

definition decide ::
  "'s agent_executor \<Rightarrow> string \<Rightarrow> 's execution_state \<Rightarrow>
   (error + string \<times> (parse_error + decision)) \<times> 's execution_state" where
  "decide ex inp st =
     (let pv = resolve_verbose (global_verbose ex) (policy_verbose ex);
          mv = resolve_verbose (global_verbose ex) (model_verbose ex);
          prompt_text = render_prompt ex inp (tools ex) (scratchpad st);
          st1 = st\<lparr>bus := bus st @ emit pv ChainStart Policy prompt_text @ emit mv LLMStart Model prompt_text,
                    decisions := Suc (decisions st)\<rparr>
      in case llm_complete ex (llm_state st) prompt_text (stop_sequences ex) of
           (Inl e, s') \<Rightarrow> (Inl e, st1\<lparr>llm_state := s'\<rparr>)
         | (Inr txt, s') \<Rightarrow>
             (Inr (txt, parse txt),
              st1\<lparr>llm_state := s',
                  bus := bus st1 @ emit mv LLMEnd Model txt @ emit pv ChainEnd Policy txt\<rparr>))"

text \<open>
  Modelled from the spec: one iteration of the transition algorithm of section 4.5,
  steps 1 to 5, from a Running state that passed the check of step 6. The result is
  either the terminal outcome (the result of the run, or the failure of the model that
  propagates, with the final state) or the state from which the loop continues.
\<close>

definition iterate ::
  "'s agent_executor \<Rightarrow> string \<Rightarrow> 's execution_state \<Rightarrow>
   ((error + string) \<times> 's execution_state) + 's execution_state" where
  "iterate ex inp st =
     (case decide ex inp st of
        (Inl e, st1) \<Rightarrow> Inl (Inl e, st1)
      | (Inr (txt, Inr (AgentFinish out)), st1) \<Rightarrow> Inl (Inr out, end_run ex Finished out st1)
      | (Inr (txt, Inr (Action nm tool_input)), st1) \<Rightarrow>
          (case dispatch ex nm tool_input st1 of
             (observation, st2) \<Rightarrow> Inr (append_observation ex txt observation st2))
      | (Inr (txt, Inl ParseError), st1) \<Rightarrow>
          Inr (append_observation ex txt (format_observation ex) st1))"

text \<open>
  Modelled from the spec: the control loop of section 4.5. Before each iteration the
  stopping condition is checked, so that a limit of zero iterations stops before any
  policy call; the loop has no other bound, and where it does not end the result is
  \<open>None\<close>.
\<close>

partial_function (option) agent_loop ::
  "'s agent_executor \<Rightarrow> string \<Rightarrow> 's execution_state \<Rightarrow> ((error + string) \<times> 's execution_state) option" where
  "agent_loop ex inp st =
     (case stop_message ex st of
        Some msg \<Rightarrow> Some (Inr msg, end_run ex StoppedEarly msg st)
      | None \<Rightarrow>
          (case iterate ex inp st of
             Inl outcome \<Rightarrow> Some outcome
           | Inr st' \<Rightarrow> agent_loop ex inp st'))"

declare agent_loop.simps [code]

text \<open>
  Modelled from the spec: the public run surface of section 6 on a string input. The
  execution state is created at the start of the run, with an empty scratchpad, and the
  executor's ChainStart opens the run.
\<close>

definition initial_state :: "'s agent_executor \<Rightarrow> 's \<Rightarrow> string \<Rightarrow> 's execution_state" where
  "initial_state ex s inp =
     \<lparr>scratchpad = [], iterations = 0, elapsed_time = 0, status = Running, llm_state = s,
      bus = emit (resolve_verbose (global_verbose ex) (executor_verbose ex)) ChainStart Executor inp,
      decisions = 0, dispatches = 0\<rparr>"

text \<open>
  Modelled from the spec: \<^verbatim>\<open>run(input)\<close> of section 6, the loop from the initial
  state.
\<close>

definition agent_run ::
  "'s agent_executor \<Rightarrow> 's \<Rightarrow> string \<Rightarrow> ((error + string) \<times> 's execution_state) option" where
  "agent_run ex s inp = agent_loop ex inp (initial_state ex s inp)"

section \<open>Example configurations\<close>

text \<open>Concrete sub-chains and configurations on which the theorems are exercised.\<close>

definition chain_xy :: chain where
  "chain_xy = string_chain ''x'' ''y'' (\<lambda>s. s @ ''! '')"

definition chain_yz :: chain where
  "chain_yz = string_chain ''y'' ''z'' (\<lambda>s. '' <'' @ s @ ''>'')"

definition chain_ab :: chain where
  "chain_ab =
     \<lparr>input_keys = [''a'', ''b''], output_keys = [], invoke = (\<lambda>kv. Inr Map.empty),
      run = (\<lambda>s. Inl (ValueError (ShouldAllHaveOneInput 2)))\<rparr>"

definition values_ok :: values_dict where
  "values_ok = \<lparr>chains = [chain_xy, chain_yz], input_variables = [''x''],
                 output_variables = None, return_all = None\<rparr>"

definition values_all :: values_dict where
  "values_all = \<lparr>chains = [chain_xy, chain_yz], input_variables = [''x''],
                  output_variables = None, return_all = Some True\<rparr>"

definition values_missing :: values_dict where
  "values_missing = \<lparr>chains = [chain_yz], input_variables = [''x''],
                      output_variables = None, return_all = None\<rparr>"









text \<open>
  The agents of the test file: the tools \<^verbatim>\<open>Search\<close> and \<^verbatim>\<open>Lookup\<close> (both return
  their input), the two responses of \<^verbatim>\<open>_get_agent\<close> and of the callback tests, and an
  executor around a \<^verbatim>\<open>FakeListLLM\<close>. The prompt is rendered as the input followed by the
  scratchpad; the texts of the two synthetic observations are chosen here.
\<close>

definition search_tool :: tool where
  "search_tool = \<lparr>tool_name = ''Search'', tool_description = ''Useful for searching'',
                  tool_func = (\<lambda>x. x)\<rparr>"

definition lookup_tool :: tool where
  "lookup_tool = \<lparr>tool_name = ''Lookup'',
                  tool_description = ''Useful for looking up things in a table'',
                  tool_func = (\<lambda>x. x)\<rparr>"

definition bad_action_response :: string where
  "bad_action_response =
     ''I'm turning evil'' @ [CHR 0x0A] @ ''Action: BadAction'' @ [CHR 0x0A] @
     ''Action Input: misalignment''"

definition search_response :: string where
  "search_response =
     ''FooBarBaz'' @ [CHR 0x0A] @ ''Action: Search'' @ [CHR 0x0A] @ ''Action Input: misalignment''"

definition final_response :: string where
  "final_response =
     ''Oh well'' @ [CHR 0x0A] @ ''Action: Final Answer'' @ [CHR 0x0A] @
     ''Action Input: curses foiled again''"

definition test_executor ::
  "tool list \<Rightarrow> nat option \<Rightarrow> bool \<Rightarrow> bool option \<Rightarrow> bool option \<Rightarrow> bool option \<Rightarrow>
   fake_list_llm agent_executor" where
  "test_executor ts limit g ev pv mv =
     \<lparr>tools = ts, llm_complete = fake_call,
      render_prompt = (\<lambda>inp ts sp. inp @ concat (map (\<lambda>(a, ob). a @ ob) sp)),
      stop_sequences = [''Observation:''],
      max_iterations = limit, max_execution_time = None, cycle_time = (\<lambda>k. 1),
      unavailable_observation = (\<lambda>nm. nm @ '' is not a valid tool, try another one.''),
      format_observation = ''Invalid format'',
      time_limit_message = ''Agent stopped due to time limit.'',
      global_verbose = g, executor_verbose = ev, policy_verbose = pv, model_verbose = mv\<rparr>"

lemma known_before_0: "known_before K cs 0 = K"
  by (simp add: known_before_def)

lemma known_before_Suc: "known_before K (c # cs) (Suc i) = known_before (K \<union> set (output_keys c)) cs i"
  by (simp add: known_before_def Un_assoc)

lemma known_final_Cons: "known_final K (c # cs) = known_final (K \<union> set (output_keys c)) cs"
  by (simp add: known_final_def Un_assoc)

lemma inputs_known_Suc: "inputs_known K (c # cs) (Suc i) = inputs_known (K \<union> set (output_keys c)) cs i"
  by (simp add: inputs_known_def known_before_Suc)

lemma outputs_fresh_Suc: "outputs_fresh K (c # cs) (Suc i) = outputs_fresh (K \<union> set (output_keys c)) cs i"
  by (simp add: outputs_fresh_def known_before_Suc)

lemma validate_loop_Inr_iff:
  "validate_loop K cs = Inr k \<longleftrightarrow>
     (\<forall>i<length cs. inputs_known K cs i \<and> outputs_fresh K cs i) \<and> k = known_final K cs"
proof (induction cs arbitrary: K)
  case Nil
  show ?case by (auto simp: known_final_def)
next
  case (Cons c cs)
  have at0: "inputs_known K (c # cs) 0 \<longleftrightarrow> set (input_keys c) - K = {}"
    "outputs_fresh K (c # cs) 0 \<longleftrightarrow> K \<inter> set (output_keys c) = {}"
    by (auto simp: inputs_known_def outputs_fresh_def known_before_0)
  show ?case
    by (auto simp add: Let_def Cons.IH All_less_Suc2 at0 inputs_known_Suc outputs_fresh_Suc known_final_Cons)
qed

text \<open>The error of the loop is the one of the first sub-chain that fails a check, inputs first.\<close>

lemma validate_loop_Inl:
  "validate_loop K cs = Inl e \<Longrightarrow>
     \<exists>i<length cs.
        (\<forall>j<i. inputs_known K cs j \<and> outputs_fresh K cs j) \<and>
        (if inputs_known K cs i
         then \<not> outputs_fresh K cs i \<and>
              e = ValueError (ChainReturnedExistingKeys (known_before K cs i \<inter> set (output_keys (cs ! i))))
         else e = ValueError (MissingRequiredInputKeys (set (input_keys (cs ! i)) - known_before K cs i)))"
proof (induction cs arbitrary: K)
  case Nil
  then show ?case by simp
next
  case (Cons c cs)
  have at0: "inputs_known K (c # cs) 0 \<longleftrightarrow> set (input_keys c) - K = {}"
    "outputs_fresh K (c # cs) 0 \<longleftrightarrow> K \<inter> set (output_keys c) = {}"
    by (auto simp: inputs_known_def outputs_fresh_def known_before_0)
  show ?case
  proof (cases "inputs_known K (c # cs) 0 \<and> outputs_fresh K (c # cs) 0")
    case False
    with Cons.prems show ?thesis
      by (intro exI[of _ 0]) (auto simp: Let_def at0 known_before_0 split: if_splits)
  next
    case True
    with Cons.prems have "validate_loop (K \<union> set (output_keys c)) cs = Inl e"
      by (simp add: Let_def at0)
    from Cons.IH[OF this] obtain i where i: "i < length cs"
      and pre: "\<forall>j<i. inputs_known (K \<union> set (output_keys c)) cs j \<and> outputs_fresh (K \<union> set (output_keys c)) cs j"
      and at: "if inputs_known (K \<union> set (output_keys c)) cs i
         then \<not> outputs_fresh (K \<union> set (output_keys c)) cs i \<and>
              e = ValueError (ChainReturnedExistingKeys (known_before (K \<union> set (output_keys c)) cs i \<inter> set (output_keys (cs ! i))))
         else e = ValueError (MissingRequiredInputKeys (set (input_keys (cs ! i)) - known_before (K \<union> set (output_keys c)) cs i))"
      by blast
    show ?thesis
      using i pre at True
      by (intro exI[of _ "Suc i"]) (simp add: All_less_Suc2 inputs_known_Suc outputs_fresh_Suc known_before_Suc)
  qed
qed


lemma validate_loop_first_failure:
  "i < length cs \<Longrightarrow> \<forall>j<i. inputs_known K cs j \<and> outputs_fresh K cs j \<Longrightarrow>
   \<not> (inputs_known K cs i \<and> outputs_fresh K cs i) \<Longrightarrow>
   validate_loop K cs =
     Inl (ValueError (if inputs_known K cs i
                      then ChainReturnedExistingKeys (known_before K cs i \<inter> set (output_keys (cs ! i)))
                      else MissingRequiredInputKeys (set (input_keys (cs ! i)) - known_before K cs i)))"
proof (induction cs arbitrary: K i)
  case Nil
  then show ?case by simp
next
  case (Cons c cs)
  have at0: "inputs_known K (c # cs) 0 \<longleftrightarrow> set (input_keys c) - K = {}"
    "outputs_fresh K (c # cs) 0 \<longleftrightarrow> K \<inter> set (output_keys c) = {}"
    by (auto simp: inputs_known_def outputs_fresh_def known_before_0)
  show ?case
  proof (cases i)
    case 0
    with Cons.prems show ?thesis
      by (auto simp: Let_def at0 known_before_0)
  next
    case (Suc n)
    with Cons.prems have ok0: "inputs_known K (c # cs) 0" "outputs_fresh K (c # cs) 0"
      by auto
    have n: "n < length cs" using Cons.prems Suc by simp
    have pre: "\<forall>j<n. inputs_known (K \<union> set (output_keys c)) cs j \<and> outputs_fresh (K \<union> set (output_keys c)) cs j"
      using Cons.prems(2) Suc by (auto simp: All_less_Suc2 inputs_known_Suc outputs_fresh_Suc)
    have bad: "\<not> (inputs_known (K \<union> set (output_keys c)) cs n \<and> outputs_fresh (K \<union> set (output_keys c)) cs n)"
      using Cons.prems(3) Suc by (simp add: inputs_known_Suc outputs_fresh_Suc)
    from Cons.IH[OF n pre bad] ok0 show ?thesis
      by (simp add: Let_def at0 Suc inputs_known_Suc outputs_fresh_Suc known_before_Suc)
  qed
qed

lemma validate_loop_failure:
  assumes "\<exists>i<length cs. \<not> (inputs_known K cs i \<and> outputs_fresh K cs i)"
  shows "\<exists>m. validate_loop K cs = Inl (ValueError m)"
proof (cases "validate_loop K cs")
  case (Inl e)
  from validate_loop_Inl[OF this] show ?thesis using Inl by (auto split: if_splits)
next
  case (Inr k)
  then show ?thesis using assms by (auto simp: validate_loop_Inr_iff)
qed

text \<open>
  C1. Construction validates the sub-chains in order. The first sub-chain with an input
  key outside the known-variable set (initially the declared inputs) makes construction
  fail with the missing keys; the first one with an output key already known makes it
  fail with the overlapping keys; when all sub-chains pass, the known-variable set is the
  declared inputs united with all output keys, and explicitly declared output variables
  outside that set make construction fail. Each of these failures is a
  \<^verbatim>\<open>ValueError\<close> of the validator, hence a \<^verbatim>\<open>ValidationError\<close> of the
  constructor. Whenever construction succeeds, all sub-chains passed both checks.
\<close>

theorem validate_chains_known_variables:
  "(\<forall>i<length (chains v).
      (\<forall>j<i. inputs_known (set (input_variables v)) (chains v) j \<and>
              outputs_fresh (set (input_variables v)) (chains v) j) \<and>
      \<not> inputs_known (set (input_variables v)) (chains v) i \<longrightarrow>
      validate_chains v =
        Inl (ValueError (MissingRequiredInputKeys
          (set (input_keys (chains v ! i)) - known_before (set (input_variables v)) (chains v) i)))) \<and>
   (\<forall>i<length (chains v).
      (\<forall>j<i. inputs_known (set (input_variables v)) (chains v) j \<and>
              outputs_fresh (set (input_variables v)) (chains v) j) \<and>
      inputs_known (set (input_variables v)) (chains v) i \<and>
      \<not> outputs_fresh (set (input_variables v)) (chains v) i \<longrightarrow>
      validate_chains v =
        Inl (ValueError (ChainReturnedExistingKeys
          (known_before (set (input_variables v)) (chains v) i \<inter> set (output_keys (chains v ! i)))))) \<and>
   ((\<forall>i<length (chains v). inputs_known (set (input_variables v)) (chains v) i \<and>
                           outputs_fresh (set (input_variables v)) (chains v) i) \<longrightarrow>
      validate_loop (set (input_variables v)) (chains v) =
        Inr (known_final (set (input_variables v)) (chains v)) \<and>
      (\<forall>ks. output_variables v = Some ks \<and>
            \<not> keys_set ks \<subseteq> known_final (set (input_variables v)) (chains v) \<longrightarrow>
            validate_chains v =
              Inl (ValueError (ExpectedOutputVariablesNotFound
                (keys_set ks - known_final (set (input_variables v)) (chains v)))))) \<and>
   ((\<exists>i<length (chains v). \<not> inputs_known (set (input_variables v)) (chains v) i \<or>
                           \<not> outputs_fresh (set (input_variables v)) (chains v) i) \<or>
    (\<exists>ks. output_variables v = Some ks \<and>
          \<not> keys_set ks \<subseteq> known_final (set (input_variables v)) (chains v)) \<longrightarrow>
      (\<exists>e. validate_chains v = Inl e \<and> is_ValidationError e)) \<and>
   (\<forall>v'. validate_chains v = Inr v' \<longrightarrow>
      (\<forall>i<length (chains v). inputs_known (set (input_variables v)) (chains v) i \<and>
                             outputs_fresh (set (input_variables v)) (chains v) i) \<and>
      validate_loop (set (input_variables v)) (chains v) =
        Inr (known_final (set (input_variables v)) (chains v)))"
  (is "?missing \<and> ?overlap \<and> ?outputs \<and> ?fails \<and> ?valid")
proof -
  let ?K = "set (input_variables v)" and ?cs = "chains v"
  have missing: ?missing
    using validate_loop_first_failure[of _ ?cs ?K] by (auto simp: validate_chains_def)
  have overlap: ?overlap
    using validate_loop_first_failure[of _ ?cs ?K] by (auto simp: validate_chains_def)
  have outputs: ?outputs
  proof (intro impI)
    assume ok: "\<forall>i<length ?cs. inputs_known ?K ?cs i \<and> outputs_fresh ?K ?cs i"
    then have loop: "validate_loop ?K ?cs = Inr (known_final ?K ?cs)"
      by (simp add: validate_loop_Inr_iff)
    then show "validate_loop ?K ?cs = Inr (known_final ?K ?cs) \<and>
      (\<forall>ks. output_variables v = Some ks \<and> \<not> keys_set ks \<subseteq> known_final ?K ?cs \<longrightarrow>
            validate_chains v =
              Inl (ValueError (ExpectedOutputVariablesNotFound (keys_set ks - known_final ?K ?cs))))"
      by (auto simp: validate_chains_def resolve_output_variables_def Let_def)
  qed
  have fails: ?fails
  proof (intro impI)
    assume bad: "(\<exists>i<length ?cs. \<not> inputs_known ?K ?cs i \<or> \<not> outputs_fresh ?K ?cs i) \<or>
      (\<exists>ks. output_variables v = Some ks \<and> \<not> keys_set ks \<subseteq> known_final ?K ?cs)"
    show "\<exists>e. validate_chains v = Inl e \<and> is_ValidationError e"
    proof (cases "\<exists>i<length ?cs. \<not> (inputs_known ?K ?cs i \<and> outputs_fresh ?K ?cs i)")
      case True
      from validate_loop_failure[OF this] show ?thesis
        by (auto simp: validate_chains_def)
    next
      case False
      then have ok: "\<forall>i<length ?cs. inputs_known ?K ?cs i \<and> outputs_fresh ?K ?cs i" by blast
      with bad obtain ks where "output_variables v = Some ks" "\<not> keys_set ks \<subseteq> known_final ?K ?cs"
        by blast
      with outputs ok show ?thesis by auto
    qed
  qed
  have valid: ?valid
    by (auto simp: validate_chains_def validate_loop_Inr_iff split: sum.splits)
  from missing overlap outputs fails valid show ?thesis by blast
qed

text \<open>
  C8. When construction succeeds and no output variables were declared, the output
  variables are the set of known variables that are not declared inputs if
  \<^verbatim>\<open>return_all\<close> is set, and the list of output keys of the last sub-chain
  otherwise (there is a last sub-chain then); the other fields are unchanged.
\<close>

theorem validate_chains_default_outputs:
  assumes "validate_chains v = Inr v'" and "output_variables v = None"
  shows "output_variables v' =
           Some (if get_return_all (return_all v)
                 then KeySet (known_final (set (input_variables v)) (chains v) - set (input_variables v))
                 else KeyList (output_keys (last (chains v)))) \<and>
         (\<not> get_return_all (return_all v) \<longrightarrow> chains v \<noteq> []) \<and>
         chains v' = chains v \<and> input_variables v' = input_variables v \<and> return_all v' = return_all v"
  using assms
  by (auto simp: validate_chains_def resolve_output_variables_def validate_loop_Inr_iff
           split: sum.splits list.splits if_splits)

lemma simple_validate_chains_Inr:
  "simple_validate_chains cs = Inr cs' \<longleftrightarrow>
     (\<forall>c \<in> set cs. length (input_keys c) = 1 \<and> length (output_keys c) = 1) \<and> cs' = cs"
proof (induction cs arbitrary: cs')
  case Nil
  show ?case by auto
next
  case (Cons c cs)
  show ?case
  proof (cases "simple_validate_chains cs")
    case (Inl e)
    with Cons.IH[of cs] show ?thesis by auto
  next
    case (Inr cs'')
    with Cons.IH[of cs''] show ?thesis by auto
  qed
qed

lemma simple_validate_chains_Inl:
  "simple_validate_chains cs = Inl e \<Longrightarrow> is_ValidationError e"
  by (induction cs) (auto split: sum.splits if_splits)

text \<open>
  C4. Constructing the single-I/O chain fails with a \<^verbatim>\<open>ValueError\<close> of the validator
  (a \<^verbatim>\<open>ValidationError\<close> of the constructor) whenever some sub-chain does not have
  exactly one input key or exactly one output key, and succeeds, keeping the sub-chains,
  when every sub-chain has exactly one of each.
\<close>

theorem simple_validate_chains_single_io:
  "((\<exists>c \<in> set cs. length (input_keys c) \<noteq> 1 \<or> length (output_keys c) \<noteq> 1) \<longrightarrow>
      (\<exists>e. simple_validate_chains cs = Inl e \<and> is_ValidationError e)) \<and>
   ((\<forall>c \<in> set cs. length (input_keys c) = 1 \<and> length (output_keys c) = 1) \<longrightarrow>
      simple_validate_chains cs = Inr cs)"
proof (cases "simple_validate_chains cs")
  case (Inl e)
  then show ?thesis
    using simple_validate_chains_Inl[OF Inl] simple_validate_chains_Inr[of cs cs] by auto
next
  case (Inr cs')
  then show ?thesis using simple_validate_chains_Inr[of cs cs'] by auto
qed

lemma length_accumulated_envs: "length (accumulated_envs cs kv) = Suc (length cs)"
  by (induction cs arbitrary: kv) auto

lemma accumulated_envs_not_Nil: "accumulated_envs cs kv \<noteq> []"
  by (cases cs) auto

lemma accumulated_envs_0: "accumulated_envs cs kv ! 0 = kv"
  by (cases cs) auto

lemma select_keys_restrict:
  "set ks \<subseteq> dom kv \<Longrightarrow> select_keys kv ks = Inr (kv |` set ks)"
proof (induction ks)
  case Nil
  show ?case by simp
next
  case (Cons k ks)
  then obtain x where x: "kv k = Some x" by auto
  have "(kv |` set ks)(k \<mapsto> x) = kv |` set (k # ks)"
    using x by (auto simp: restrict_map_def fun_eq_iff)
  with Cons x show ?case by simp
qed

lemma select_keys_missing:
  "\<not> set ks \<subseteq> dom kv \<Longrightarrow> \<exists>k \<in> set ks. k \<notin> dom kv \<and> select_keys kv ks = Inl (KeyError k)"
proof (induction ks)
  case Nil
  then show ?case by simp
next
  case (Cons k ks)
  show ?case
  proof (cases "kv k")
    case None
    then show ?thesis by auto
  next
    case (Some x)
    with Cons.prems have "\<not> set ks \<subseteq> dom kv" by auto
    from Cons.IH[OF this] Some show ?thesis by auto
  qed
qed

text \<open>
  When every sub-chain finds its input keys among the known variables and honours its
  declared keys, the loop invokes the sub-chains in list order on the accumulated
  environments, and every known variable has a value at the end.
\<close>

lemma call_loop_valid:
  assumes "\<forall>j<length cs. inputs_known K cs j"
    and "K \<subseteq> dom kv"
    and "\<forall>c \<in> set cs. honours_keys c"
  shows "fst (call_loop vb i cs kv) = zip [i..<i + length cs] (butlast (accumulated_envs cs kv)) \<and>
         snd (snd (call_loop vb i cs kv)) = Inr (last (accumulated_envs cs kv)) \<and>
         known_final K cs \<subseteq> dom (last (accumulated_envs cs kv)) \<and>
         (\<forall>j<length cs. \<exists>outputs.
             invoke (cs ! j) (accumulated_envs cs kv ! j) = Inr outputs \<and>
             dom outputs = set (output_keys (cs ! j)) \<and>
             accumulated_envs cs kv ! Suc j = accumulated_envs cs kv ! j ++ outputs)"
  using assms
proof (induction cs arbitrary: K kv i)
  case Nil
  then show ?case by (simp add: known_final_def)
next
  case (Cons c cs)
  from Cons.prems(1) have "inputs_known K (c # cs) 0" by auto
  with Cons.prems(2) have "set (input_keys c) \<subseteq> dom kv"
    by (auto simp: inputs_known_def known_before_0)
  moreover from Cons.prems(3) have "honours_keys c" by simp
  ultimately obtain outputs where out: "invoke c kv = Inr outputs" "dom outputs = set (output_keys c)"
    unfolding honours_keys_def by blast
  let ?K = "K \<union> set (output_keys c)" and ?kv = "kv ++ outputs"
  have 1: "\<forall>j<length cs. inputs_known ?K cs j"
    using Cons.prems(1) by (auto simp: All_less_Suc2 inputs_known_Suc)
  have 2: "?K \<subseteq> dom ?kv" using Cons.prems(2) out by auto
  have 3: "\<forall>c \<in> set cs. honours_keys c" using Cons.prems(3) by simp
  note IH = Cons.IH[OF 1 2 3, of "Suc i"]
  have acc: "accumulated_envs (c # cs) kv = kv # accumulated_envs cs ?kv"
    using out by simp
  have upt: "[i..<i + length (c # cs)] = i # [Suc i..<Suc i + length cs]"
    using upt_conv_Cons[of i "i + Suc (length cs)"] by simp
  have calls: "fst (call_loop vb i (c # cs) kv) = (i, kv) # fst (call_loop vb (Suc i) cs ?kv)"
    and res: "snd (snd (call_loop vb i (c # cs) kv)) = snd (snd (call_loop vb (Suc i) cs ?kv))"
    using out by (auto split: prod.splits)
  have "fst (call_loop vb i (c # cs) kv) =
          zip [i..<i + length (c # cs)] (butlast (accumulated_envs (c # cs) kv))"
    unfolding calls acc upt using IH by (simp add: accumulated_envs_not_Nil)
  moreover have "snd (snd (call_loop vb i (c # cs) kv)) = Inr (last (accumulated_envs (c # cs) kv))"
    unfolding res acc using IH by (simp add: accumulated_envs_not_Nil)
  moreover have "known_final K (c # cs) \<subseteq> dom (last (accumulated_envs (c # cs) kv))"
    unfolding acc using IH by (simp add: accumulated_envs_not_Nil known_final_Cons)
  moreover have "\<forall>j<length (c # cs). \<exists>outputs.
             invoke ((c # cs) ! j) (accumulated_envs (c # cs) kv ! j) = Inr outputs \<and>
             dom outputs = set (output_keys ((c # cs) ! j)) \<and>
             accumulated_envs (c # cs) kv ! Suc j = accumulated_envs (c # cs) kv ! j ++ outputs"
    unfolding acc using IH out by (simp add: All_less_Suc2 accumulated_envs_0)
  ultimately show ?case by blast
qed

lemma validate_chains_outputs_known:
  assumes "validate_chains v = Inr v'" and "output_variables v' = Some ks"
  shows "keys_set ks \<subseteq> known_final (set (input_variables v)) (chains v) \<and> chains v' = chains v"
  using assms
  by (auto simp: validate_chains_def resolve_output_variables_def validate_loop_Inr_iff known_final_def
                 Let_def
           split: sum.splits list.splits if_splits option.splits)

text \<open>
  C2. For a validly constructed chain (\<open>validate_chains\<close> succeeded on the values \<open>v\<close>, giving
  the object fields \<open>v'\<close>; \<open>out_vars\<close> is the list held in its \<^verbatim>\<open>output_variables\<close>
  field) whose sub-chains honour their declared keys, and for inputs that contain the
  declared input variables: the call invokes the sub-chains in list order, sub-chain
  \<open>j\<close> on the whole accumulated environment; each sub-chain returns its output keys, which
  are merged into the environment handed to the next one; and the call returns the final
  environment restricted to the declared output variables.
\<close>

theorem seq_call_threads_environment:
  assumes "validate_chains v = Inr v'"
    and "output_variables v' = Some ks"
    and "set out_vars = keys_set ks"
    and "set (input_variables v) \<subseteq> dom inputs"
    and "\<forall>c \<in> set (chains v). honours_keys c"
  shows "fst (seq_call vb (chains v') out_vars inputs) =
           zip [0..<length (chains v)] (butlast (accumulated_envs (chains v) inputs)) \<and>
         accumulated_envs (chains v) inputs ! 0 = inputs \<and>
         (\<forall>j<length (chains v). \<exists>outputs.
             invoke (chains v ! j) (accumulated_envs (chains v) inputs ! j) = Inr outputs \<and>
             dom outputs = set (output_keys (chains v ! j)) \<and>
             accumulated_envs (chains v) inputs ! Suc j =
               accumulated_envs (chains v) inputs ! j ++ outputs) \<and>
         snd (snd (seq_call vb (chains v') out_vars inputs)) =
           Inr (last (accumulated_envs (chains v) inputs) |` set out_vars) \<and>
         set out_vars \<subseteq> dom (last (accumulated_envs (chains v) inputs))"
proof -
  let ?K = "set (input_variables v)" and ?cs = "chains v"
  from assms(1) have ok: "\<forall>j<length ?cs. inputs_known ?K ?cs j"
    by (auto simp: validate_chains_def validate_loop_Inr_iff split: sum.splits)
  note loop = call_loop_valid[OF ok assms(4) assms(5), of vb 0]
  from validate_chains_outputs_known[OF assms(1,2)] assms(3)
  have sub: "set out_vars \<subseteq> known_final ?K ?cs" and same: "chains v' = ?cs" by auto
  from sub loop have dom: "set out_vars \<subseteq> dom (last (accumulated_envs ?cs inputs))" by blast
  have "fst (seq_call vb ?cs out_vars inputs) = fst (call_loop vb 0 ?cs inputs)"
    by (simp add: seq_call_def split: prod.splits)
  moreover have "snd (snd (seq_call vb ?cs out_vars inputs)) =
      (case snd (snd (call_loop vb 0 ?cs inputs)) of Inl e \<Rightarrow> Inl e
       | Inr known_values \<Rightarrow> select_keys known_values out_vars)"
    by (simp add: seq_call_def split: prod.splits)
  ultimately show ?thesis
    using loop dom by (simp add: same select_keys_restrict accumulated_envs_0)
qed

lemma snd_simple_loop_Cons:
  "snd (simple_loop strp vb i (c # cs) x) =
     (case run c x of
        Inl e \<Rightarrow> Inl e
      | Inr out \<Rightarrow> snd (simple_loop strp vb (Suc i) cs (if strp then strip out else out)))"
  by (cases "run c x") (simp_all add: Let_def split: prod.splits)

lemma simple_loop_total_chains:
  "\<forall>j<length cs. run (cs ! j) = (\<lambda>s. Inr ((fs ! j) s)) \<Longrightarrow> length fs = length cs \<Longrightarrow>
   snd (simple_loop strp vb i cs x) = Inr (compose_stages strp fs x)"
proof (induction cs arbitrary: i x fs)
  case Nil
  then show ?case by simp
next
  case (Cons c cs)
  then obtain f fs' where fs: "fs = f # fs'" by (cases fs) auto
  from Cons.prems fs have c: "run c = (\<lambda>s. Inr (f s))" by auto
  from Cons.prems fs have rest: "\<forall>j<length cs. run (cs ! j) = (\<lambda>s. Inr ((fs' ! j) s))" "length fs' = length cs"
    by (auto simp: All_less_Suc2)
  show ?case
    using Cons.IH[OF rest] c by (simp add: fs snd_simple_loop_Cons del: simple_loop.simps)
qed











lemma agent_loop_stop:
  "stop_message ex st = Some msg \<Longrightarrow>
   agent_loop ex inp st = Some (Inr msg, end_run ex StoppedEarly msg st)"
  by (subst agent_loop.simps) simp

lemma agent_loop_finish:
  "stop_message ex st = None \<Longrightarrow> iterate ex inp st = Inl outcome \<Longrightarrow>
   agent_loop ex inp st = Some outcome"
  by (subst agent_loop.simps) simp

lemma agent_loop_continue:
  "stop_message ex st = None \<Longrightarrow> iterate ex inp st = Inr st' \<Longrightarrow>
   agent_loop ex inp st = agent_loop ex inp st'"
  by (subst agent_loop.simps) simp

lemma stop_message_None:
  "\<forall>n. max_iterations ex = Some n \<longrightarrow> iterations st < n \<Longrightarrow>
   \<forall>t. max_execution_time ex = Some t \<longrightarrow> elapsed_time st \<le> t \<Longrightarrow>
   stop_message ex st = None"
  by (auto simp: stop_message_def split: option.splits)

lemma stop_message_zero:
  "max_iterations ex = Some 0 \<Longrightarrow> stop_message ex st = Some max_iterations_message"
  by (simp add: stop_message_def)

text \<open>
  C5. An executor with \<open>max_iterations = 0\<close> returns, on every input and from every state of
  the model, the StoppedEarly result with the fixed message. Neither the policy nor a
  tool is invoked: no decision and no dispatch is counted, the state of the model is the
  one the run started with, the bus holds no LLMStart and no ToolStart event, and the
  outcome is the same whatever the model and the tools are.
\<close>

theorem max_iterations_zero_stops_early:
  assumes "max_iterations ex = Some 0"
  shows "\<exists>st. agent_run ex s inp = Some (Inr ''Agent stopped due to max iterations.'', st) \<and>
              status st = StoppedEarly \<and> decisions st = 0 \<and> dispatches st = 0 \<and>
              llm_state st = s \<and> scratchpad st = [] \<and>
              count_kind LLMStart (bus st) = 0 \<and> count_kind ToolStart (bus st) = 0 \<and>
              (\<forall>f ts. agent_run (ex\<lparr>llm_complete := f, tools := ts\<rparr>) s inp =
                        Some (Inr ''Agent stopped due to max iterations.'', st))"
proof -
  let ?st = "end_run ex StoppedEarly max_iterations_message (initial_state ex s inp)"
  have run: "agent_run ex s inp = Some (Inr max_iterations_message, ?st)"
    unfolding agent_run_def by (rule agent_loop_stop) (rule stop_message_zero[OF assms])
  have other: "agent_run (ex\<lparr>llm_complete := f, tools := ts\<rparr>) s inp = Some (Inr max_iterations_message, ?st)"
    for f ts
  proof -
    have "max_iterations (ex\<lparr>llm_complete := f, tools := ts\<rparr>) = Some 0" using assms by simp
    then have "agent_run (ex\<lparr>llm_complete := f, tools := ts\<rparr>) s inp =
        Some (Inr max_iterations_message,
              end_run (ex\<lparr>llm_complete := f, tools := ts\<rparr>) StoppedEarly max_iterations_message
                (initial_state (ex\<lparr>llm_complete := f, tools := ts\<rparr>) s inp))"
      unfolding agent_run_def by (intro agent_loop_stop stop_message_zero)
    then show ?thesis by (simp add: end_run_def initial_state_def)
  qed
  have "status ?st = StoppedEarly" "decisions ?st = 0" "dispatches ?st = 0" "llm_state ?st = s"
    "scratchpad ?st = []"
    "count_kind LLMStart (bus ?st) = 0" "count_kind ToolStart (bus ?st) = 0"
    by (simp_all add: end_run_def initial_state_def emit_def count_kind_def)
  with run other show ?thesis
    unfolding max_iterations_message_def by blast
qed

text \<open>What one iteration does when the model answers with a tool Action, and with AgentFinish.\<close>

lemma iterate_Action:
  assumes "llm_complete ex (llm_state st) (render_prompt ex inp (tools ex) (scratchpad st))
             (stop_sequences ex) = (Inr txt, s')"
    and "parse txt = Inr (Action nm ti)"
  shows "iterate ex inp st =
     Inr (append_observation ex txt
            (case registry_invoke (tools ex) nm ti of
               Inl e \<Rightarrow> unavailable_observation ex nm
             | Inr out \<Rightarrow> out)
            (st\<lparr>llm_state := s',
                decisions := Suc (decisions st),
                dispatches := Suc (dispatches st),
                bus := bus st @
                  emit (resolve_verbose (global_verbose ex) (policy_verbose ex)) ChainStart Policy
                    (render_prompt ex inp (tools ex) (scratchpad st)) @
                  emit (resolve_verbose (global_verbose ex) (model_verbose ex)) LLMStart Model
                    (render_prompt ex inp (tools ex) (scratchpad st)) @
                  emit (resolve_verbose (global_verbose ex) (model_verbose ex)) LLMEnd Model txt @
                  emit (resolve_verbose (global_verbose ex) (policy_verbose ex)) ChainEnd Policy txt @
                  emit (resolve_verbose (global_verbose ex) (executor_verbose ex)) ToolStart Executor nm @
                  emit (resolve_verbose (global_verbose ex) (executor_verbose ex)) ToolEnd Executor
                    (case registry_invoke (tools ex) nm ti of
                       Inl e \<Rightarrow> unavailable_observation ex nm
                     | Inr out \<Rightarrow> out)\<rparr>))"
  using assms
  by (simp add: iterate_def decide_def dispatch_def append_observation_def Let_def
           split: sum.splits registry_error.splits)

lemma iterate_AgentFinish:
  assumes "llm_complete ex (llm_state st) (render_prompt ex inp (tools ex) (scratchpad st))
             (stop_sequences ex) = (Inr txt, s')"
    and "parse txt = Inr (AgentFinish out)"
  shows "iterate ex inp st =
     Inl (Inr out,
          end_run ex Finished out
            (st\<lparr>llm_state := s',
                decisions := Suc (decisions st),
                bus := bus st @
                  emit (resolve_verbose (global_verbose ex) (policy_verbose ex)) ChainStart Policy
                    (render_prompt ex inp (tools ex) (scratchpad st)) @
                  emit (resolve_verbose (global_verbose ex) (model_verbose ex)) LLMStart Model
                    (render_prompt ex inp (tools ex) (scratchpad st)) @
                  emit (resolve_verbose (global_verbose ex) (model_verbose ex)) LLMEnd Model txt @
                  emit (resolve_verbose (global_verbose ex) (policy_verbose ex)) ChainEnd Policy txt\<rparr>))"
  using assms
  by (simp add: iterate_def decide_def end_run_def Let_def)

text \<open>
  A run of two decisions, a tool Action and then AgentFinish: the outcome and the final
  state, for any model and any tools.
\<close>

lemma two_decision_run:
  assumes first: "llm_complete ex s (render_prompt ex inp (tools ex) []) (stop_sequences ex) = (Inr t1, s1)"
    and action: "parse t1 = Inr (Action nm ti)"
    and obs: "ob = (case registry_invoke (tools ex) nm ti of
                      Inl e \<Rightarrow> unavailable_observation ex nm | Inr out \<Rightarrow> out)"
    and second: "llm_complete ex s1 (render_prompt ex inp (tools ex) [(t1, ob)]) (stop_sequences ex) = (Inr t2, s2)"
    and finish: "parse t2 = Inr (AgentFinish out)"
    and limit: "\<forall>n. max_iterations ex = Some n \<longrightarrow> 2 \<le> n"
    and time: "\<forall>t. max_execution_time ex = Some t \<longrightarrow> cycle_time ex 0 \<le> t"
  shows "agent_run ex s inp =
     Some (Inr out,
       \<lparr>scratchpad = [(t1, ob)], iterations = 1, elapsed_time = cycle_time ex 0, status = Finished,
        llm_state = s2,
        bus =
          emit (resolve_verbose (global_verbose ex) (executor_verbose ex)) ChainStart Executor inp @
          emit (resolve_verbose (global_verbose ex) (policy_verbose ex)) ChainStart Policy
            (render_prompt ex inp (tools ex) []) @
          emit (resolve_verbose (global_verbose ex) (model_verbose ex)) LLMStart Model
            (render_prompt ex inp (tools ex) []) @
          emit (resolve_verbose (global_verbose ex) (model_verbose ex)) LLMEnd Model t1 @
          emit (resolve_verbose (global_verbose ex) (policy_verbose ex)) ChainEnd Policy t1 @
          emit (resolve_verbose (global_verbose ex) (executor_verbose ex)) ToolStart Executor nm @
          emit (resolve_verbose (global_verbose ex) (executor_verbose ex)) ToolEnd Executor ob @
          emit (resolve_verbose (global_verbose ex) (executor_verbose ex)) Text Executor ob @
          emit (resolve_verbose (global_verbose ex) (policy_verbose ex)) ChainStart Policy
            (render_prompt ex inp (tools ex) [(t1, ob)]) @
          emit (resolve_verbose (global_verbose ex) (model_verbose ex)) LLMStart Model
            (render_prompt ex inp (tools ex) [(t1, ob)]) @
          emit (resolve_verbose (global_verbose ex) (model_verbose ex)) LLMEnd Model t2 @
          emit (resolve_verbose (global_verbose ex) (policy_verbose ex)) ChainEnd Policy t2 @
          emit (resolve_verbose (global_verbose ex) (executor_verbose ex)) ChainEnd Executor out,
        decisions = 2, dispatches = 1\<rparr>)"
proof -
  let ?st0 = "initial_state ex s inp"
  have stop0: "stop_message ex ?st0 = None"
    using limit time by (intro stop_message_None) (auto simp: initial_state_def)
  have first': "llm_complete ex (llm_state ?st0) (render_prompt ex inp (tools ex) (scratchpad ?st0))
                  (stop_sequences ex) = (Inr t1, s1)"
    using first by (simp add: initial_state_def)
  note it0 = iterate_Action[OF first' action, folded obs]
  obtain st1 where st1: "iterate ex inp ?st0 = Inr st1"
    and sp1: "scratchpad st1 = [(t1, ob)]" and ls1: "llm_state st1 = s1"
    and i1: "iterations st1 = 1" and e1: "elapsed_time st1 = cycle_time ex 0"
    using it0 by (simp add: append_observation_def initial_state_def)
  have stop1: "stop_message ex st1 = None"
    using limit time i1 e1 by (intro stop_message_None) auto
  have second': "llm_complete ex (llm_state st1) (render_prompt ex inp (tools ex) (scratchpad st1))
                  (stop_sequences ex) = (Inr t2, s2)"
    using second by (simp add: sp1 ls1)
  note it1 = iterate_AgentFinish[OF second' finish]
  have "agent_run ex s inp = agent_loop ex inp st1"
    unfolding agent_run_def by (rule agent_loop_continue[OF stop0 st1])
  also have "\<dots> = Some (Inr out, end_run ex Finished out
            (st1\<lparr>llm_state := s2,
                decisions := Suc (decisions st1),
                bus := bus st1 @
                  emit (resolve_verbose (global_verbose ex) (policy_verbose ex)) ChainStart Policy
                    (render_prompt ex inp (tools ex) (scratchpad st1)) @
                  emit (resolve_verbose (global_verbose ex) (model_verbose ex)) LLMStart Model
                    (render_prompt ex inp (tools ex) (scratchpad st1)) @
                  emit (resolve_verbose (global_verbose ex) (model_verbose ex)) LLMEnd Model t2 @
                  emit (resolve_verbose (global_verbose ex) (policy_verbose ex)) ChainEnd Policy t2\<rparr>))"
    by (rule agent_loop_finish[OF stop1 it1])
  finally show ?thesis
    using st1 it0
    by (simp add: end_run_def append_observation_def initial_state_def)
qed

lemma parse_bad_action_response: "parse bad_action_response = Inr (Action ''BadAction'' ''misalignment'')"
  by (simp add: parse_def bad_action_response_def finish_marker_def)

lemma parse_search_response: "parse search_response = Inr (Action ''Search'' ''misalignment'')"
  by (simp add: parse_def search_response_def finish_marker_def)

lemma parse_final_response: "parse final_response = Inr (AgentFinish ''curses foiled again'')"
  by (simp add: parse_def final_response_def finish_marker_def)

lemma fake_call_first:
  "fake_call (FakeListLLM (r1 # rs)) p stop = (Inr r1, \<lparr>responses = r1 # rs, fake_i = 0\<rparr>)"
  by (simp add: fake_call_def FakeListLLM_def list_index_def Let_def)

lemma fake_call_second:
  "fake_call \<lparr>responses = r1 # r2 # rs, fake_i = 0\<rparr> p stop =
     (Inr r2, \<lparr>responses = r1 # r2 # rs, fake_i = 1\<rparr>)"
  by (simp add: fake_call_def list_index_def Let_def)

text \<open>
  C6. With the registry \<open>{Search, Lookup}\<close> and a model that answers first with the Action
  \<open>BadAction\<close> and then with the final answer, the run on \<^verbatim>\<open>when was langchain made\<close>
  (no limit, or a limit of at least two iterations; no time limit) appends the
  observation that \<open>BadAction\<close> is unavailable to the scratchpad, continues, and finishes
  with the result \<^verbatim>\<open>curses foiled again\<close> after exactly two policy decisions.
\<close>

theorem bad_action_is_not_fatal:
  assumes "tools ex = [search_tool, lookup_tool]"
    and "llm_complete ex = fake_call"
    and "\<forall>n. max_iterations ex = Some n \<longrightarrow> 2 \<le> n"
    and "max_execution_time ex = None"
  shows "\<exists>st. agent_run ex (FakeListLLM [bad_action_response, final_response])
                ''when was langchain made'' = Some (Inr ''curses foiled again'', st) \<and>
              status st = Finished \<and> decisions st = 2 \<and> iterations st = 1 \<and>
              scratchpad st = [(bad_action_response, unavailable_observation ex ''BadAction'')]"
proof -
  have reg: "registry_invoke (tools ex) ''BadAction'' ''misalignment'' = Inl (ToolNotFoundError ''BadAction'')"
    by (simp add: assms(1) registry_invoke_def search_tool_def lookup_tool_def)
  have ob: "unavailable_observation ex ''BadAction'' =
      (case registry_invoke (tools ex) ''BadAction'' ''misalignment'' of
         Inl e \<Rightarrow> unavailable_observation ex ''BadAction'' | Inr out \<Rightarrow> out)"
    by (simp add: reg)
  have first: "llm_complete ex (FakeListLLM [bad_action_response, final_response])
        (render_prompt ex ''when was langchain made'' (tools ex) []) (stop_sequences ex) =
      (Inr bad_action_response, \<lparr>responses = [bad_action_response, final_response], fake_i = 0\<rparr>)"
    by (simp add: assms(2) fake_call_first)
  have second: "llm_complete ex \<lparr>responses = [bad_action_response, final_response], fake_i = 0\<rparr>
        (render_prompt ex ''when was langchain made'' (tools ex)
           [(bad_action_response, unavailable_observation ex ''BadAction'')]) (stop_sequences ex) =
      (Inr final_response, \<lparr>responses = [bad_action_response, final_response], fake_i = 1\<rparr>)"
    by (simp add: assms(2) fake_call_second)
  have time: "\<forall>t. max_execution_time ex = Some t \<longrightarrow> cycle_time ex 0 \<le> t"
    by (simp add: assms(4))
  from two_decision_run[OF first parse_bad_action_response ob second parse_final_response assms(3) time]
  show ?thesis by simp
qed

text \<open>
  C7. In a run of two decisions, a dispatch of a registered tool and then the final
  answer, the numbers of events depend only on the resolved verbosity of the emitting
  components, whether it comes from the process-wide default or from the component's own
  flag. With the executor, the policy and the model verbose there is exactly one
  ChainStart and one ChainEnd of the executor (the top level), two LLMStart and two
  LLMEnd, one ToolStart and one ToolEnd; with verbosity disabled everywhere no event is
  delivered at all.
\<close>

theorem single_tool_run_event_counts:
  assumes "llm_complete ex s (render_prompt ex inp (tools ex) []) (stop_sequences ex) = (Inr t1, s1)"
    and "parse t1 = Inr (Action nm ti)"
    and "registry_invoke (tools ex) nm ti = Inr ob"
    and "llm_complete ex s1 (render_prompt ex inp (tools ex) [(t1, ob)]) (stop_sequences ex) = (Inr t2, s2)"
    and "parse t2 = Inr (AgentFinish out)"
    and "\<forall>n. max_iterations ex = Some n \<longrightarrow> 2 \<le> n"
    and "\<forall>t. max_execution_time ex = Some t \<longrightarrow> cycle_time ex 0 \<le> t"
  shows "\<exists>st. agent_run ex s inp = Some (Inr out, st) \<and>
           decisions st = 2 \<and> dispatches st = 1 \<and>
           count_from ChainStart Executor (bus st) =
             (if resolve_verbose (global_verbose ex) (executor_verbose ex) then 1 else 0) \<and>
           count_from ChainEnd Executor (bus st) =
             (if resolve_verbose (global_verbose ex) (executor_verbose ex) then 1 else 0) \<and>
           count_kind LLMStart (bus st) =
             (if resolve_verbose (global_verbose ex) (model_verbose ex) then 2 else 0) \<and>
           count_kind LLMEnd (bus st) =
             (if resolve_verbose (global_verbose ex) (model_verbose ex) then 2 else 0) \<and>
           count_kind ToolStart (bus st) =
             (if resolve_verbose (global_verbose ex) (executor_verbose ex) then 1 else 0) \<and>
           count_kind ToolEnd (bus st) =
             (if resolve_verbose (global_verbose ex) (executor_verbose ex) then 1 else 0) \<and>
           (\<not> resolve_verbose (global_verbose ex) (executor_verbose ex) \<and>
            \<not> resolve_verbose (global_verbose ex) (policy_verbose ex) \<and>
            \<not> resolve_verbose (global_verbose ex) (model_verbose ex) \<longrightarrow> bus st = [])"
proof -
  have ob: "ob = (case registry_invoke (tools ex) nm ti of
                    Inl e \<Rightarrow> unavailable_observation ex nm | Inr out \<Rightarrow> out)"
    by (simp add: assms(3))
  from two_decision_run[OF assms(1) assms(2) ob assms(4) assms(5) assms(6) assms(7)]
  show ?thesis
    by (simp add: emit_def count_from_def count_kind_def)
qed

section \<open>The theorems at concrete inputs\<close>

theorem validate_chains_known_variables_witness:
  "(0 < length (chains values_missing) \<and>
    \<not> inputs_known (set (input_variables values_missing)) (chains values_missing) 0) \<and>
   validate_chains values_missing = Inl (ValueError (MissingRequiredInputKeys {''y''})) \<and>
   length (chains values_ok) = 2 \<and>
   inputs_known (set (input_variables values_ok)) (chains values_ok) 0 \<and>
   outputs_fresh (set (input_variables values_ok)) (chains values_ok) 0 \<and>
   inputs_known (set (input_variables values_ok)) (chains values_ok) 1 \<and>
   outputs_fresh (set (input_variables values_ok)) (chains values_ok) 1 \<and>
   validate_loop (set (input_variables values_ok)) (chains values_ok) = Inr {''x'', ''y'', ''z''}"
proof -
  have bad: "0 < length (chains values_missing)"
    "\<forall>j<0. inputs_known (set (input_variables values_missing)) (chains values_missing) j \<and>
           outputs_fresh (set (input_variables values_missing)) (chains values_missing) j"
    "\<not> inputs_known (set (input_variables values_missing)) (chains values_missing) 0"
    by (simp_all add: chain_xy_def chain_yz_def string_chain_def values_ok_def values_missing_def inputs_known_def known_before_def)
  have ok: "\<forall>i<length (chains values_ok).
       inputs_known (set (input_variables values_ok)) (chains values_ok) i \<and>
       outputs_fresh (set (input_variables values_ok)) (chains values_ok) i"
    by (simp add: chain_xy_def chain_yz_def string_chain_def values_ok_def values_missing_def inputs_known_def outputs_fresh_def known_before_def
          All_less_Suc2 numeral_2_eq_2)
  from validate_chains_known_variables[of values_missing] bad
  have "validate_chains values_missing =
          Inl (ValueError (MissingRequiredInputKeys
            (set (input_keys (chains values_missing ! 0)) -
             known_before (set (input_variables values_missing)) (chains values_missing) 0)))"
    by blast
  moreover from validate_chains_known_variables[of values_ok] ok
  have "validate_loop (set (input_variables values_ok)) (chains values_ok) =
          Inr (known_final (set (input_variables values_ok)) (chains values_ok))"
    by blast
  moreover have "length (chains values_ok) = 2" by (simp add: chain_xy_def chain_yz_def string_chain_def values_ok_def values_missing_def)
  ultimately show ?thesis
    using bad ok
    by (simp add: All_less_Suc2 numeral_2_eq_2)
       (simp add: chain_xy_def chain_yz_def string_chain_def values_ok_def values_missing_def known_before_def known_final_def insert_commute)
qed

theorem validate_chains_default_outputs_witness:
  "validate_chains values_ok = Inr (values_ok\<lparr>output_variables := Some (KeyList [''z''])\<rparr>) \<and>
   validate_chains values_all = Inr (values_all\<lparr>output_variables := Some (KeySet {''y'', ''z''})\<rparr>)"
proof -
  have 1: "validate_chains values_ok = Inr (values_ok\<lparr>output_variables := Some (KeyList [''z''])\<rparr>)"
    by (simp add: validate_chains_def resolve_output_variables_def chain_xy_def chain_yz_def string_chain_def values_ok_def values_all_def Let_def)
  have 2: "validate_chains values_all =
             Inr (values_all\<lparr>output_variables :=
                    Some (KeySet (({''x''} \<union> {''y''} \<union> {''z''}) - {''x''}))\<rparr>)"
    by (simp add: validate_chains_def resolve_output_variables_def chain_xy_def chain_yz_def string_chain_def values_ok_def values_all_def Let_def)
  have n: "output_variables values_ok = None" "output_variables values_all = None"
    by (simp_all add: chain_xy_def chain_yz_def string_chain_def values_ok_def values_all_def)
  from validate_chains_default_outputs[OF 1 n(1)] validate_chains_default_outputs[OF 2 n(2)]
  have "output_variables (values_ok\<lparr>output_variables := Some (KeyList [''z''])\<rparr>) =
          Some (KeyList (output_keys (last (chains values_ok))))"
    and "output_variables (values_all\<lparr>output_variables :=
                    Some (KeySet (({''x''} \<union> {''y''} \<union> {''z''}) - {''x''}))\<rparr>) =
          Some (KeySet (known_final (set (input_variables values_all)) (chains values_all) -
                        set (input_variables values_all)))"
    by (simp_all add: chain_xy_def chain_yz_def string_chain_def values_ok_def values_all_def)
  with 1 2 show ?thesis
    by (auto simp: chain_xy_def chain_yz_def string_chain_def values_ok_def values_all_def known_final_def)
qed

theorem simple_validate_chains_single_io_witness:
  "(\<exists>c \<in> set [chain_xy, chain_ab]. length (input_keys c) \<noteq> 1 \<or> length (output_keys c) \<noteq> 1) \<and>
   simple_validate_chains [chain_xy, chain_ab] = Inl (ValueError (ShouldAllHaveOneInput 2)) \<and>
   length (input_keys chain_xy) = 1 \<and> length (output_keys chain_xy) = 1 \<and>
   length (input_keys chain_yz) = 1 \<and> length (output_keys chain_yz) = 1 \<and>
   simple_validate_chains [chain_xy, chain_yz] = Inr [chain_xy, chain_yz]"
proof -
  have bad: "\<exists>c \<in> set [chain_xy, chain_ab]. length (input_keys c) \<noteq> 1 \<or> length (output_keys c) \<noteq> 1"
    by (simp add: chain_xy_def chain_yz_def chain_ab_def string_chain_def)
  have ok: "\<forall>c \<in> set [chain_xy, chain_yz]. length (input_keys c) = 1 \<and> length (output_keys c) = 1"
    by (simp add: chain_xy_def chain_yz_def chain_ab_def string_chain_def)
  from simple_validate_chains_single_io[of "[chain_xy, chain_yz]"] ok
  have "simple_validate_chains [chain_xy, chain_yz] = Inr [chain_xy, chain_yz]" by blast
  moreover from simple_validate_chains_single_io[of "[chain_xy, chain_ab]"] bad
  obtain e where "simple_validate_chains [chain_xy, chain_ab] = Inl e" "is_ValidationError e" by blast
  moreover have "simple_validate_chains [chain_xy, chain_ab] = Inl (ValueError (ShouldAllHaveOneInput 2))"
    by (simp add: chain_xy_def chain_yz_def chain_ab_def string_chain_def)
  ultimately show ?thesis using bad ok by simp
qed

lemma honours_keys_string_chain: "honours_keys (string_chain ik ok f)"
  by (auto simp: honours_keys_def string_chain_def)

theorem seq_call_threads_environment_witness:
  "seq_call False (chains values_ok) [''z''] [''x'' \<mapsto> ''q''] =
     ([(0, [''x'' \<mapsto> ''q'']), (1, [''x'' \<mapsto> ''q'', ''y'' \<mapsto> ''q! ''])], [],
      Inr [''z'' \<mapsto> '' <q! >''])"
proof -
  have v: "validate_chains values_ok = Inr (values_ok\<lparr>output_variables := Some (KeyList [''z''])\<rparr>)"
    by (simp add: validate_chains_def resolve_output_variables_def chain_xy_def chain_yz_def string_chain_def values_ok_def Let_def)
  have o: "output_variables (values_ok\<lparr>output_variables := Some (KeyList [''z''])\<rparr>) = Some (KeyList [''z''])"
    by simp
  have s: "set [''z''] = keys_set (KeyList [''z''])" by simp
  have i: "set (input_variables values_ok) \<subseteq> dom [''x'' \<mapsto> ''q'']"
    by (simp add: chain_xy_def chain_yz_def string_chain_def values_ok_def)
  have h: "\<forall>c \<in> set (chains values_ok). honours_keys c"
    by (simp add: values_ok_def chain_xy_def chain_yz_def honours_keys_string_chain)
  note t = seq_call_threads_environment[OF v o s i h, of False]
  have "snd (snd (seq_call False (chains values_ok) [''z''] [''x'' \<mapsto> ''q''])) =
          Inr [''z'' \<mapsto> '' <q! >'']"
    using t by (auto simp: chain_xy_def chain_yz_def string_chain_def values_ok_def restrict_map_def fun_eq_iff map_add_def)
  moreover have "fst (seq_call False (chains values_ok) [''z''] [''x'' \<mapsto> ''q'']) =
      [(0, [''x'' \<mapsto> ''q'']), (1, [''x'' \<mapsto> ''q'', ''y'' \<mapsto> ''q! ''])]"
    using t by (auto simp: chain_xy_def chain_yz_def string_chain_def values_ok_def fun_eq_iff map_add_def upt_rec)
  moreover have "fst (snd (seq_call False (chains values_ok) [''z''] [''x'' \<mapsto> ''q''])) = []"
    by (simp add: seq_call_def chain_xy_def chain_yz_def string_chain_def values_ok_def split: prod.splits)
  ultimately show ?thesis by (metis prod.collapse)
qed







theorem max_iterations_zero_stops_early_witness:
  "max_iterations (test_executor [search_tool, lookup_tool] (Some 0) False (Some True) None None) = Some 0 \<and>
   map_option fst
     (agent_run (test_executor [search_tool, lookup_tool] (Some 0) False (Some True) None None)
        (FakeListLLM [bad_action_response, final_response]) ''when was langchain made'') =
     Some (Inr ''Agent stopped due to max iterations.'')"
proof -
  have m: "max_iterations (test_executor [search_tool, lookup_tool] (Some 0) False (Some True) None None) = Some 0"
    by (simp add: test_executor_def)
  from max_iterations_zero_stops_early[OF m, of "FakeListLLM [bad_action_response, final_response]"
      "''when was langchain made''"]
  show ?thesis using m by auto
qed

theorem bad_action_is_not_fatal_witness:
  "tools (test_executor [search_tool, lookup_tool] None False (Some True) None None) =
     [search_tool, lookup_tool] \<and>
   max_iterations (test_executor [search_tool, lookup_tool] None False (Some True) None None) = None \<and>
   map_option (\<lambda>(r, st). (r, decisions st, status st))
     (agent_run (test_executor [search_tool, lookup_tool] None False (Some True) None None)
        (FakeListLLM [bad_action_response, final_response]) ''when was langchain made'') =
     Some (Inr ''curses foiled again'', 2, Finished)"
proof -
  let ?ex = "test_executor [search_tool, lookup_tool] None False (Some True) None None"
  have h: "tools ?ex = [search_tool, lookup_tool]" "llm_complete ?ex = fake_call"
    "\<forall>n. max_iterations ?ex = Some n \<longrightarrow> 2 \<le> n" "max_execution_time ?ex = None"
    "max_iterations ?ex = None"
    by (simp_all add: test_executor_def)
  from bad_action_is_not_fatal[OF h(1-4)] show ?thesis using h(1,5) by auto
qed

text \<open>
  The three callback tests: verbosity from the global flag, from the flags of the
  instances, and disabled.
\<close>

theorem single_tool_run_event_counts_witness:
  "map_option (\<lambda>(r, st). (r, count_from ChainStart Executor (bus st), count_from ChainEnd Executor (bus st),
                           count_kind LLMStart (bus st), count_kind LLMEnd (bus st),
                           count_kind ToolStart (bus st), count_kind ToolEnd (bus st)))
     (agent_run (test_executor [search_tool] None True (Some True) None (Some True))
        (FakeListLLM [search_response, final_response]) ''when was langchain made'') =
     Some (Inr ''curses foiled again'', 1, 1, 2, 2, 1, 1) \<and>
   map_option (\<lambda>(r, st). (r, count_from ChainStart Executor (bus st), count_from ChainEnd Executor (bus st),
                           count_kind LLMStart (bus st), count_kind LLMEnd (bus st),
                           count_kind ToolStart (bus st), count_kind ToolEnd (bus st)))
     (agent_run (test_executor [search_tool] None False (Some True) (Some True) (Some True))
        (FakeListLLM [search_response, final_response]) ''when was langchain made'') =
     Some (Inr ''curses foiled again'', 1, 1, 2, 2, 1, 1) \<and>
   map_option (\<lambda>(r, st). (r, bus st))
     (agent_run (test_executor [search_tool] None False None None None)
        (FakeListLLM [search_response, final_response]) ''when was langchain made'') =
     Some (Inr ''curses foiled again'', [])"
proof -
  have run: "\<exists>st. agent_run (test_executor [search_tool] None g ev pv mv)
                 (FakeListLLM [search_response, final_response]) ''when was langchain made'' =
               Some (Inr ''curses foiled again'', st) \<and>
           decisions st = 2 \<and> dispatches st = 1 \<and>
           count_from ChainStart Executor (bus st) = (if resolve_verbose g ev then 1 else 0) \<and>
           count_from ChainEnd Executor (bus st) = (if resolve_verbose g ev then 1 else 0) \<and>
           count_kind LLMStart (bus st) = (if resolve_verbose g mv then 2 else 0) \<and>
           count_kind LLMEnd (bus st) = (if resolve_verbose g mv then 2 else 0) \<and>
           count_kind ToolStart (bus st) = (if resolve_verbose g ev then 1 else 0) \<and>
           count_kind ToolEnd (bus st) = (if resolve_verbose g ev then 1 else 0) \<and>
           (\<not> resolve_verbose g ev \<and> \<not> resolve_verbose g pv \<and> \<not> resolve_verbose g mv \<longrightarrow> bus st = [])"
    for g ev pv mv
  proof -
    let ?ex = "test_executor [search_tool] None g ev pv mv"
    have first: "llm_complete ?ex (FakeListLLM [search_response, final_response])
          (render_prompt ?ex ''when was langchain made'' (tools ?ex) []) (stop_sequences ?ex) =
        (Inr search_response, \<lparr>responses = [search_response, final_response], fake_i = 0\<rparr>)"
      by (simp add: test_executor_def fake_call_first)
    have reg: "registry_invoke (tools ?ex) ''Search'' ''misalignment'' = Inr ''misalignment''"
      by (simp add: test_executor_def registry_invoke_def search_tool_def)
    have second: "llm_complete ?ex \<lparr>responses = [search_response, final_response], fake_i = 0\<rparr>
          (render_prompt ?ex ''when was langchain made'' (tools ?ex) [(search_response, ''misalignment'')])
          (stop_sequences ?ex) =
        (Inr final_response, \<lparr>responses = [search_response, final_response], fake_i = 1\<rparr>)"
      by (simp add: test_executor_def fake_call_second)
    have lim: "\<forall>n. max_iterations ?ex = Some n \<longrightarrow> 2 \<le> n"
      "\<forall>t. max_execution_time ?ex = Some t \<longrightarrow> cycle_time ?ex 0 \<le> t"
      by (simp_all add: test_executor_def)
    from single_tool_run_event_counts[OF first parse_search_response reg second parse_final_response lim]
    show ?thesis by (simp add: test_executor_def)
  qed
  from run[of True "Some True" None "Some True"] run[of False "Some True" "Some True" "Some True"]
    run[of False None None None]
  show ?thesis by auto
qed

end
